theory Spec2Isabelle
  imports Complex_Main
begin

section \<open>Numbers\<close>

text \<open>
  The cell table of \<^verbatim>\<open>OnSSTOVE\<close> is a pandas data frame of float columns. The
  columns are modelled with exact rationals: rounding is not modelled. Division is the
  one operation of the modelled code that leaves the finite numbers, and pandas does
  not raise there: a division by zero stores an infinity or NaN. Values that come out
  of a division are therefore of type \<open>fval\<close>, with the IEEE 754 rules for the special
  values (a zero divisor counts as \<open>+0\<close>) and comparisons that are false on NaN.
\<close>

datatype fval = Fin rat | PInf | NInf | NaN

fun fadd :: "fval \<Rightarrow> fval \<Rightarrow> fval" where
  "fadd (Fin a) (Fin b) = Fin (a + b)"
| "fadd NaN _ = NaN"
| "fadd _ NaN = NaN"
| "fadd PInf NInf = NaN"
| "fadd NInf PInf = NaN"
| "fadd PInf _ = PInf"
| "fadd _ PInf = PInf"
| "fadd NInf _ = NInf"
| "fadd _ NInf = NInf"

fun fscale :: "rat \<Rightarrow> fval \<Rightarrow> fval" where
  "fscale k (Fin a) = Fin (a * k)"
| "fscale k NaN = NaN"
| "fscale k PInf = (if 0 < k then PInf else if k < 0 then NInf else NaN)"
| "fscale k NInf = (if 0 < k then NInf else if k < 0 then PInf else NaN)"

fun fdiv :: "fval \<Rightarrow> rat \<Rightarrow> fval" where
  "fdiv (Fin a) b =
     (if b = 0 then (if a = 0 then NaN else if 0 < a then PInf else NInf)
      else Fin (a / b))"
| "fdiv NaN b = NaN"
| "fdiv PInf b = (if 0 \<le> b then PInf else NInf)"
| "fdiv NInf b = (if 0 \<le> b then NInf else PInf)"

fun fle :: "fval \<Rightarrow> fval \<Rightarrow> bool" where
  "fle NaN _ = False"
| "fle _ NaN = False"
| "fle (Fin a) (Fin b) = (a \<le> b)"
| "fle NInf _ = True"
| "fle _ PInf = True"
| "fle _ _ = False"

fun flt :: "fval \<Rightarrow> fval \<Rightarrow> bool" where
  "flt NaN _ = False"
| "flt _ NaN = False"
| "flt (Fin a) (Fin b) = (a < b)"
| "flt PInf _ = False"
| "flt _ NInf = False"
| "flt _ _ = True"

section \<open>Data model\<close>

text \<open>
  \<^verbatim>\<open>self.specs\<close>, the scalar configuration read from the scenario file, with the
  keys the modelled methods read.
\<close>

record specs =
  Elec_rate :: rat
  infra_weight :: rat
  Min_Elec_Pop :: rat
  Min_Night_Lights :: rat
  Population_start_year :: rat
  Urban_start :: rat
  Rural_HHsize :: rat
  Urban_HHsize :: rat

text \<open>
  One row of \<^verbatim>\<open>self.gdf\<close>, with the columns the modelled methods read or write.
  \<^verbatim>\<open>self.combined_weight\<close> is a series on the index of \<^verbatim>\<open>self.gdf\<close>; its entry is
  kept with the row. \<open>Households\<close> is filled through row masks, so a row that no
  mask selects keeps NaN. The columns \<^verbatim>\<open>net_benefit_<tech>\<close> are kept, in column
  order and with distinct names, as pairs of the technology name (the column name
  without its prefix, which is what \<^verbatim>\<open>str.replace\<close> leaves) and the value. The column
  \<^verbatim>\<open>maximum_net_benefit\<close> has the name of the method that fills it and is the field
  \<open>maximum_net_benefit_col\<close>.
\<close>

record cell =
  Calibrated_pop :: rat
  Elec_dist :: rat
  Night_lights :: rat
  combined_weight :: fval
  IsUrban :: int
  Households :: fval
  Current_elec :: int
  Elec_pop_calib :: rat
  net_benefit :: "(string \<times> rat) list"
  max_benefit_tech :: string
  maximum_net_benefit_col :: rat

section \<open>Normalizer\<close>

text \<open>
  \<^verbatim>\<open>OnSSTOVE.normalized(column, inverse)\<close>: the column's values minus its minimum
  (or its maximum minus the values), divided by the range. The function has no guard
  and no \<^verbatim>\<open>raise\<close>; it is total, and its result is a column of \<open>fval\<close>.
\<close>

definition normalized :: "rat list \<Rightarrow> bool \<Rightarrow> fval list" where
  "normalized col invert =
     (if invert
      then map (\<lambda>x. fdiv (Fin (Max (set col) - x)) (Max (set col) - Min (set col))) col
      else map (\<lambda>x. fdiv (Fin (x - Min (set col))) (Max (set col) - Min (set col))) col)"

section \<open>Electrification calibrator\<close>

text \<open>
  \<^verbatim>\<open>normalize_for_electricity\<close>, from the point where the column \<^verbatim>\<open>Elec_dist\<close> has
  been chosen: the weighted mean of three normalised columns.
\<close>

definition normalize_for_electricity :: "specs \<Rightarrow> cell list \<Rightarrow> cell list" where
  "normalize_for_electricity sp gdf =
     (let elec_dist = normalized (map Elec_dist gdf) True;
          ntl = normalized (map Night_lights gdf) False;
          pop = normalized (map Calibrated_pop gdf) False
      in map (\<lambda>(c, e, p, n).
           c\<lparr>combined_weight :=
               fdiv (fadd (fadd (fscale (infra_weight sp) e) (fscale (Min_Elec_Pop sp) p))
                          (fscale (Min_Night_Lights sp) n))
                    (infra_weight sp + Min_Elec_Pop sp + Min_Night_Lights sp)\<rparr>)
           (zip gdf (zip elec_dist (zip pop ntl))))"

text \<open>The threshold step of both phases, \<^verbatim>\<open>0.0001\<close>.\<close>

definition step_size :: rat where
  "step_size = 1 / 10000"

text \<open>The mask \<^verbatim>\<open>self.combined_weight >= i\<close> on one row.\<close>

definition weight_ge :: "rat \<Rightarrow> cell \<Rightarrow> bool" where
  "weight_ge i c = fle (Fin i) (combined_weight c)"

text \<open>\<^verbatim>\<open>self.gdf.loc[mask, "Calibrated_pop"].sum()\<close>.\<close>

definition pop_sum :: "(cell \<Rightarrow> bool) \<Rightarrow> cell list \<Rightarrow> rat" where
  "pop_sum sel gdf = sum_list (map Calibrated_pop (filter sel gdf))"

text \<open>\<^verbatim>\<open>self.gdf.loc[mask, "Current_elec"] = 1\<close>.\<close>

definition mark_elec :: "(cell \<Rightarrow> bool) \<Rightarrow> cell list \<Rightarrow> cell list" where
  "mark_elec sel gdf = map (\<lambda>c. if sel c then c\<lparr>Current_elec := 1\<rparr> else c) gdf"

text \<open>
  The loop of \<^verbatim>\<open>current_elec\<close>. It has no iteration cap and need not end, so it is
  a partial function: \<open>None\<close> is a run that never returns. The result is the final
  \<^verbatim>\<open>i\<close> and the table.
\<close>

partial_function (option) current_elec_loop ::
  "rat \<Rightarrow> rat \<Rightarrow> rat \<Rightarrow> cell list \<Rightarrow> (rat \<times> cell list) option" where
  "current_elec_loop target i elec_pop gdf =
     (if elec_pop \<le> target
      then current_elec_loop target (i - step_size)
             (pop_sum (weight_ge i) gdf) (mark_elec (weight_ge i) gdf)
      else Some (i, gdf))"

text \<open>
  \<^verbatim>\<open>current_elec\<close>: the result is \<^verbatim>\<open>self.i\<close> and the table with the column
  \<^verbatim>\<open>Current_elec\<close>.
\<close>

definition current_elec :: "specs \<Rightarrow> cell list \<Rightarrow> (rat \<times> cell list) option" where
  "current_elec sp gdf =
     (let gdf1 = normalize_for_electricity sp gdf;
          elec_rate = Elec_rate sp;
          gdf2 = map (\<lambda>c. c\<lparr>Current_elec := 0\<rparr>) gdf1;
          total = sum_list (map Calibrated_pop gdf2)
      in current_elec_loop (total * elec_rate) 1 0 gdf2)"

text \<open>\<^verbatim>\<open>self.gdf.loc[self.gdf["Current_elec"] == 1, "Calibrated_pop"].sum()\<close>.\<close>

definition is_elec :: "cell \<Rightarrow> bool" where
  "is_elec c \<longleftrightarrow> Current_elec c = 1"

definition marked_pop :: "cell list \<Rightarrow> rat" where
  "marked_pop gdf = pop_sum is_elec gdf"

text \<open>\<^verbatim>\<open>self.gdf["Calibrated_pop"].sum()\<close>.\<close>

definition total_pop :: "cell list \<Rightarrow> rat" where
  "total_pop gdf = sum_list (map Calibrated_pop gdf)"

text \<open>
  How a run of the loop of \<^verbatim>\<open>current_elec\<close> that is entered ends: \<open>t\<close> is the last
  threshold it used. The rows at or above \<open>t\<close> are marked and their population
  exceeds the target, and the population at the threshold before \<open>t\<close> did not.
\<close>

definition stops_at :: "rat \<Rightarrow> rat \<Rightarrow> cell list \<Rightarrow> rat \<times> cell list \<Rightarrow> rat \<Rightarrow> bool" where
  "stops_at target i gdf r t \<longleftrightarrow>
     t \<le> i \<and> r = (t - step_size, mark_elec (weight_ge t) gdf) \<and>
     target < pop_sum (weight_ge t) gdf \<and>
     (t < i \<longrightarrow> pop_sum (weight_ge (t + step_size)) gdf \<le> target)"

text \<open>Every weight of the table is a number, or \<open>+\<infinity>\<close>, of at least \<open>m\<close>.\<close>

definition weights_above :: "rat \<Rightarrow> cell list \<Rightarrow> bool" where
  "weights_above m gdf \<longleftrightarrow> list_all (\<lambda>w. fle (Fin m) w) (map combined_weight gdf)"

section \<open>Phase B\<close>

text \<open>
  The local state of the loop of \<^verbatim>\<open>final_elec\<close>: the upper threshold \<^verbatim>\<open>i\<close>, the
  running \<^verbatim>\<open>elec_pop\<close> and the table.
\<close>

record sweep_state =
  thr :: rat
  elec_pop :: rat
  table :: "cell list"

text \<open>The mask \<^verbatim>\<open>(self.i <= self.combined_weight) & (self.combined_weight <= i)\<close>.\<close>

definition in_band :: "rat \<Rightarrow> rat \<Rightarrow> cell \<Rightarrow> bool" where
  "in_band self_i i c \<longleftrightarrow>
     fle (Fin self_i) (combined_weight c) \<and> fle (combined_weight c) (Fin i)"

text \<open>\<^verbatim>\<open>self.gdf.loc[new_bool, "Elec_pop_calib"] -= factor\<close>.\<close>

definition reduce_band :: "rat \<Rightarrow> rat \<Rightarrow> rat \<Rightarrow> cell \<Rightarrow> cell" where
  "reduce_band factor self_i i c =
     (if in_band self_i i c then c\<lparr>Elec_pop_calib := Elec_pop_calib c - factor\<rparr> else c)"

text \<open>\<^verbatim>\<open>self.gdf.loc[self.gdf["Elec_pop_calib"] < 0, "Elec_pop_calib"] = 0\<close>.\<close>

definition clamp_zero :: "cell \<Rightarrow> cell" where
  "clamp_zero c = (if Elec_pop_calib c < 0 then c\<lparr>Elec_pop_calib := 0\<rparr> else c)"

text \<open>\<^verbatim>\<open>self.gdf.loc[self.gdf["Elec_pop_calib"] == 0, "Current_elec"] = 0\<close>.\<close>

definition deactivate :: "cell \<Rightarrow> cell" where
  "deactivate c = (if Elec_pop_calib c = 0 then c\<lparr>Current_elec := 0\<rparr> else c)"

text \<open>The three assignments above on one row, in the order of the source.\<close>

definition sweep_cell :: "rat \<Rightarrow> rat \<Rightarrow> rat \<Rightarrow> cell \<Rightarrow> cell" where
  "sweep_cell factor self_i i c = deactivate (clamp_zero (reduce_band factor self_i i c))"

text \<open>\<^verbatim>\<open>self.gdf.loc[bool, "Elec_pop_calib"].sum()\<close> with \<^verbatim>\<open>bool = Current_elec == 1\<close>.\<close>

definition elec_sum :: "cell list \<Rightarrow> rat" where
  "elec_sum gdf = sum_list (map Elec_pop_calib (filter is_elec gdf))"

text \<open>
  The body of the loop. The band mask is computed before the rows change, and the
  weights do not change, so the second \<^verbatim>\<open>new_bool\<close> is the band mask on the rows
  that are still electrified; \<^verbatim>\<open>new_bool.sum()\<close> counts them.
\<close>

definition final_elec_body :: "rat \<Rightarrow> rat \<Rightarrow> sweep_state \<Rightarrow> sweep_state" where
  "final_elec_body factor self_i st =
     (let i = thr st;
          gdf = map (sweep_cell factor self_i i) (table st);
          new_bool = filter (\<lambda>c. is_elec c \<and> in_band self_i i c) gdf
      in \<lparr>thr = (if length new_bool = 0 then i + step_size else i),
          elec_pop = elec_sum gdf, table = gdf\<rparr>)"

text \<open>
  The loop, again without a cap: \<open>None\<close> is a run that never returns.
\<close>

partial_function (option) final_elec_loop ::
  "rat \<Rightarrow> rat \<Rightarrow> rat \<Rightarrow> sweep_state \<Rightarrow> cell list option" where
  "final_elec_loop target factor self_i st =
     (if target < elec_pop st
      then final_elec_loop target factor self_i (final_elec_body factor self_i st)
      else Some (table st))"

text \<open>
  The part of \<^verbatim>\<open>final_elec\<close> before the loop. \<^verbatim>\<open>Current_elec\<close> is an integer
  column, so \<^verbatim>\<open>count()\<close> is the number of rows of the table. On the empty table the
  quotient is \<open>0 / 0\<close>; the loop is not entered there and \<open>factor\<close> is not read.
\<close>

definition final_elec_target :: "specs \<Rightarrow> cell list \<Rightarrow> rat" where
  "final_elec_target sp gdf = total_pop gdf * Elec_rate sp"

definition final_elec_factor :: "specs \<Rightarrow> cell list \<Rightarrow> rat" where
  "final_elec_factor sp gdf =
     (let elec_pop = marked_pop gdf;
          diff = elec_pop - final_elec_target sp gdf
      in diff / of_nat (length gdf))"

definition final_elec_init :: "rat \<Rightarrow> cell list \<Rightarrow> sweep_state" where
  "final_elec_init self_i gdf =
     \<lparr>thr = self_i + step_size, elec_pop = marked_pop gdf,
      table = map (\<lambda>c. c\<lparr>Elec_pop_calib := Calibrated_pop c\<rparr>) gdf\<rparr>"

text \<open>\<^verbatim>\<open>self.gdf.loc[self.gdf["Current_elec"] == 0, "Elec_pop_calib"] = 0\<close>.\<close>

definition zero_unelectrified :: "cell \<Rightarrow> cell" where
  "zero_unelectrified c = (if Current_elec c = 0 then c\<lparr>Elec_pop_calib := 0\<rparr> else c)"

text \<open>\<^verbatim>\<open>final_elec\<close>, from \<^verbatim>\<open>self.i\<close> and the table that \<^verbatim>\<open>current_elec\<close> left.\<close>

definition final_elec :: "specs \<Rightarrow> rat \<Rightarrow> cell list \<Rightarrow> cell list option" where
  "final_elec sp self_i gdf =
     map_option (map zero_unelectrified)
       (final_elec_loop (final_elec_target sp gdf) (final_elec_factor sp gdf) self_i
          (final_elec_init self_i gdf))"

text \<open>
  The state after \<open>n\<close> passes through the \<^verbatim>\<open>while\<close> test: a pass runs the body when
  the test holds and changes nothing once it fails.
\<close>

definition final_elec_pass :: "rat \<Rightarrow> rat \<Rightarrow> rat \<Rightarrow> sweep_state \<Rightarrow> sweep_state" where
  "final_elec_pass target factor self_i st =
     (if target < elec_pop st then final_elec_body factor self_i st else st)"

definition final_elec_after :: "specs \<Rightarrow> rat \<Rightarrow> cell list \<Rightarrow> nat \<Rightarrow> sweep_state" where
  "final_elec_after sp self_i gdf n =
     ((final_elec_pass (final_elec_target sp gdf) (final_elec_factor sp gdf) self_i) ^^ n)
       (final_elec_init self_i gdf)"

text \<open>
  The decrement in the words of the specification, to compare the code with: the
  current surplus divided by the number of currently electrified cells.
\<close>

definition spec_decrement :: "rat \<Rightarrow> sweep_state \<Rightarrow> rat" where
  "spec_decrement target st =
     (elec_pop st - target) / of_nat (length (filter is_elec (table st)))"

text \<open>The invariant of a row: \<open>0 \<le> Elec_pop_calib \<le> Calibrated_pop\<close>.\<close>

definition elec_within_pop :: "cell \<Rightarrow> bool" where
  "elec_within_pop c \<longleftrightarrow> 0 \<le> Elec_pop_calib c \<and> Elec_pop_calib c \<le> Calibrated_pop c"

section \<open>Maximum-net-benefit allocator\<close>

text \<open>
  What a run of a method can end in besides a table. \<open>ValueError\<close> is the exception
  that \<^verbatim>\<open>idxmax\<close> raises when there is no column to take the maximum over.
  \<open>NonFinite\<close> is not an exception: it marks a run that divides by a population of
  zero and so stores NaN or an infinity in columns that the model keeps as rationals;
  the model does not follow such a table further.
\<close>

datatype error = ValueError | NonFinite

text \<open>\<^verbatim>\<open>max(axis=1)\<close> and \<^verbatim>\<open>idxmax(axis=1)\<close> on one row: the largest value, and the
  name of the first column that holds it.\<close>

definition row_max :: "(string \<times> rat) list \<Rightarrow> rat" where
  "row_max cols = Max (set (map snd cols))"

definition idxmax :: "(string \<times> rat) list \<Rightarrow> string" where
  "idxmax cols = fst (hd (filter (\<lambda>(t, v). v = row_max cols) cols))"

text \<open>The first four lines of \<^verbatim>\<open>maximum_net_benefit\<close> on one row.\<close>

definition best_row :: "cell \<Rightarrow> cell" where
  "best_row c =
     c\<lparr>max_benefit_tech := idxmax (net_benefit c),
       maximum_net_benefit_col := row_max (net_benefit c)\<rparr>"

text \<open>The mask \<^verbatim>\<open>current_elect\<close>.\<close>

definition current_elect :: "cell \<Rightarrow> bool" where
  "current_elect c \<longleftrightarrow>
     Current_elec c = 1 \<and> Elec_pop_calib c < Calibrated_pop c \<and>
     max_benefit_tech c = ''Electricity''"

definition elect_fraction :: "cell \<Rightarrow> rat" where
  "elect_fraction c = Elec_pop_calib c / Calibrated_pop c"

text \<open>\<^verbatim>\<open>second_benefit_cols\<close>: the net-benefit columns without that of the grid.\<close>

definition second_benefit_cols :: "cell \<Rightarrow> (string \<times> rat) list" where
  "second_benefit_cols c = filter (\<lambda>(t, v). t \<noteq> ''Electricity'') (net_benefit c)"

text \<open>The row that stays in place: four columns times \<^verbatim>\<open>elect_fraction\<close>.\<close>

definition grid_row :: "cell \<Rightarrow> cell" where
  "grid_row c =
     c\<lparr>maximum_net_benefit_col := maximum_net_benefit_col c * elect_fraction c,
       Calibrated_pop := Calibrated_pop c * elect_fraction c,
       Elec_pop_calib := Elec_pop_calib c * elect_fraction c,
       Households := fscale (elect_fraction c) (Households c)\<rparr>"

text \<open>The row of \<^verbatim>\<open>dff\<close>, the copy that is appended.\<close>

definition other_row :: "cell \<Rightarrow> cell" where
  "other_row c =
     c\<lparr>max_benefit_tech := idxmax (second_benefit_cols c),
       maximum_net_benefit_col := row_max (second_benefit_cols c) * (1 - elect_fraction c),
       Calibrated_pop := Calibrated_pop c * (1 - elect_fraction c),
       Elec_pop_calib := Elec_pop_calib c * (1 - elect_fraction c),
       Households := fscale (1 - elect_fraction c) (Households c)\<rparr>"

text \<open>
  \<^verbatim>\<open>maximum_net_benefit\<close>. The rows under the mask are scaled in place, and their
  copies are appended in the order of the table.
\<close>

definition maximum_net_benefit :: "cell list \<Rightarrow> error + cell list" where
  "maximum_net_benefit gdf =
     (if list_ex (\<lambda>c. net_benefit c = []) gdf then Inl ValueError
      else let gdf1 = map best_row gdf;
               dff = filter current_elect gdf1
           in if dff = [] then Inr gdf1
              else if list_ex (\<lambda>c. second_benefit_cols c = []) dff then Inl ValueError
              else if list_ex (\<lambda>c. Calibrated_pop c = 0) dff then Inl NonFinite
              else Inr (map (\<lambda>c. if current_elect c then grid_row c else c) gdf1
                        @ map other_row dff))"

text \<open>The position of the appended copy of row \<open>k\<close>.\<close>

definition appended_index :: "cell list \<Rightarrow> nat \<Rightarrow> nat" where
  "appended_index gdf k =
     length gdf + length (filter current_elect (take k (map best_row gdf)))"

section \<open>Urban classifier and households\<close>

text \<open>
  The local variables of the loop of \<^verbatim>\<open>calibrate_urban_manual\<close>: \<^verbatim>\<open>urban_modelled\<close>,
  \<^verbatim>\<open>factor\<close>, the counter \<^verbatim>\<open>i\<close>, and the table.
\<close>

record urban_state =
  urban_modelled :: fval
  urban_factor :: rat
  urban_i :: nat
  urban_gdf :: "cell list"

text \<open>\<^verbatim>\<open>self.gdf["Calibrated_pop"] / (self.cell_size[0] ** 2 / 1000000)\<close>.\<close>

definition density :: "rat \<Rightarrow> cell \<Rightarrow> fval" where
  "density cell_size c = fdiv (Fin (Calibrated_pop c)) (cell_size ^ 2 / 1000000)"

text \<open>The three assignments to \<^verbatim>\<open>IsUrban\<close> on one row, in the order of the source.\<close>

definition classify :: "rat \<Rightarrow> rat \<Rightarrow> cell \<Rightarrow> cell" where
  "classify cell_size f c =
     (let c0 = c\<lparr>IsUrban := 0\<rparr>;
          c1 = (if 5000 * f < Calibrated_pop c0 \<and> flt (Fin (350 * f)) (density cell_size c0)
                then c0\<lparr>IsUrban := 1\<rparr> else c0)
      in if 50000 * f < Calibrated_pop c1 \<and> flt (Fin (1500 * f)) (density cell_size c1)
         then c1\<lparr>IsUrban := 2\<rparr> else c1)"

text \<open>
  \<^verbatim>\<open>abs(urban_modelled - urban_current) > 0.01\<close>: true on an infinite share, false on
  NaN.
\<close>

fun far_from :: "fval \<Rightarrow> rat \<Rightarrow> bool" where
  "far_from (Fin u) t = (1 / 100 < \<bar>u - t\<bar>)"
| "far_from NaN t = False"
| "far_from PInf t = True"
| "far_from NInf t = True"

text \<open>The body of the loop up to and with \<^verbatim>\<open>i = i + 1\<close>.\<close>

definition calibrate_urban_body :: "rat \<Rightarrow> rat \<Rightarrow> rat \<Rightarrow> urban_state \<Rightarrow> urban_state" where
  "calibrate_urban_body cell_size pop_tot urban_current st =
     (let gdf = map (classify cell_size (urban_factor st)) (urban_gdf st);
          pop_urb = sum_list (map Calibrated_pop (filter (\<lambda>c. 1 < IsUrban c) gdf));
          modelled = fdiv (Fin pop_urb) pop_tot
      in \<lparr>urban_modelled = modelled,
          urban_factor = (if flt (Fin urban_current) modelled
                          then urban_factor st * (11 / 10) else urban_factor st * (9 / 10)),
          urban_i = urban_i st + 1,
          urban_gdf = gdf\<rparr>)"

text \<open>The loop, with its \<^verbatim>\<open>break\<close>.\<close>

function calibrate_urban_loop :: "rat \<Rightarrow> rat \<Rightarrow> rat \<Rightarrow> urban_state \<Rightarrow> urban_state" where
  "calibrate_urban_loop cell_size pop_tot urban_current st =
     (if far_from (urban_modelled st) urban_current
      then if 500 < urban_i (calibrate_urban_body cell_size pop_tot urban_current st)
           then calibrate_urban_body cell_size pop_tot urban_current st
           else calibrate_urban_loop cell_size pop_tot urban_current
                  (calibrate_urban_body cell_size pop_tot urban_current st)
      else st)"
  by pat_completeness auto
termination
  by (relation "measure (\<lambda>(cell_size, pop_tot, urban_current, st). 501 - urban_i st)")
     (auto simp: calibrate_urban_body_def Let_def)

declare calibrate_urban_loop.simps [simp del]

text \<open>
  \<^verbatim>\<open>calibrate_urban_manual\<close>, with \<^verbatim>\<open>self.cell_size[0]\<close> as an argument. The result keeps
  the local variables next to the table, so that the number of iterations can be read.
\<close>

definition calibrate_urban_manual :: "specs \<Rightarrow> rat \<Rightarrow> cell list \<Rightarrow> urban_state" where
  "calibrate_urban_manual sp cell_size gdf =
     calibrate_urban_loop cell_size (Population_start_year sp) (Urban_start sp)
       \<lparr>urban_modelled = Fin 2, urban_factor = 1, urban_i = 0, urban_gdf = gdf\<rparr>"

text \<open>\<^verbatim>\<open>number_of_households\<close>: two masked assignments.\<close>

definition number_of_households :: "specs \<Rightarrow> cell list \<Rightarrow> cell list" where
  "number_of_households sp gdf =
     (let gdf1 = map (\<lambda>c. if IsUrban c < 20
                          then c\<lparr>Households := fdiv (Fin (Calibrated_pop c)) (Rural_HHsize sp)\<rparr>
                          else c) gdf
      in map (\<lambda>c. if 20 < IsUrban c
                 then c\<lparr>Households := fdiv (Fin (Calibrated_pop c)) (Urban_HHsize sp)\<rparr>
                 else c) gdf1)"

section \<open>Example tables\<close>

definition example_specs :: specs where
  "example_specs =
     \<lparr>Elec_rate = 1 / 2, infra_weight = 1, Min_Elec_Pop = 1, Min_Night_Lights = 1,
      Population_start_year = 400, Urban_start = 1 / 2, Rural_HHsize = 5, Urban_HHsize = 4\<rparr>"

text \<open>A row with three net-benefit columns, the grid the best and LPG second.\<close>

definition blank_cell :: cell where
  "blank_cell =
     \<lparr>Calibrated_pop = 0, Elec_dist = 0, Night_lights = 0, combined_weight = NaN,
      IsUrban = 0, Households = NaN, Current_elec = 0, Elec_pop_calib = 0,
      net_benefit = [(''Biomass'', 2), (''Electricity'', 10), (''LPG'', 6)],
      max_benefit_tech = [], maximum_net_benefit_col = 0\<rparr>"

text \<open>
  Two rows: 300 people next to the grid under bright night lights, 100 people one
  kilometre away in the dark.
\<close>

definition two_cells :: "cell list" where
  "two_cells =
     [blank_cell\<lparr>Calibrated_pop := 300, Elec_dist := 0, Night_lights := 1\<rparr>,
      blank_cell\<lparr>Calibrated_pop := 100, Elec_dist := 1, Night_lights := 0\<rparr>]"

definition two_cells_phase_a :: "cell list" where
  "two_cells_phase_a =
     [blank_cell\<lparr>Calibrated_pop := 300, Elec_dist := 0, Night_lights := 1,
        combined_weight := Fin 1, Current_elec := 1\<rparr>,
      blank_cell\<lparr>Calibrated_pop := 100, Elec_dist := 1, Night_lights := 0,
        combined_weight := Fin 0\<rparr>]"

definition two_cells_phase_b :: "cell list" where
  "two_cells_phase_b =
     [blank_cell\<lparr>Calibrated_pop := 300, Elec_dist := 0, Night_lights := 1,
        combined_weight := Fin 1, Current_elec := 1, Elec_pop_calib := 200\<rparr>,
      blank_cell\<lparr>Calibrated_pop := 100, Elec_dist := 1, Night_lights := 0,
        combined_weight := Fin 0\<rparr>]"




definition two_cells_allocated :: "cell list" where
  "two_cells_allocated =
     [blank_cell\<lparr>Calibrated_pop := 200, Elec_dist := 0, Night_lights := 1,
        combined_weight := Fin 1, Current_elec := 1, Elec_pop_calib := 400 / 3,
        max_benefit_tech := ''Electricity'', maximum_net_benefit_col := 20 / 3\<rparr>,
      blank_cell\<lparr>Calibrated_pop := 100, Elec_dist := 1, Night_lights := 0,
        combined_weight := Fin 0,
        max_benefit_tech := ''Electricity'', maximum_net_benefit_col := 10\<rparr>,
      blank_cell\<lparr>Calibrated_pop := 100, Elec_dist := 0, Night_lights := 1,
        combined_weight := Fin 1, Current_elec := 1, Elec_pop_calib := 200 / 3,
        max_benefit_tech := ''LPG'', maximum_net_benefit_col := 2\<rparr>]"

text \<open>
  A table of one cell of one square kilometre with 60000 people, in a country of
  60000 people that is all urban.
\<close>

definition city_specs :: specs where
  "city_specs = example_specs\<lparr>Population_start_year := 60000, Urban_start := 1\<rparr>"

definition city_cell :: cell where
  "city_cell = blank_cell\<lparr>Calibrated_pop := 60000\<rparr>"

section \<open>Properties of the normalizer\<close>

lemma length_normalized: "length (normalized col b) = length col"
  by (simp add: normalized_def)

lemma degenerate_all_equal:
  assumes "Max (set col) = Min (set col)" "x \<in> set col"
  shows "x = Min (set col)"
proof -
  have "Min (set col) \<le> x" "x \<le> Max (set col)" using assms(2) by simp_all
  with assms(1) show ?thesis by simp
qed

text \<open>
  C7, as stated: on a column whose maximum equals its minimum the normalizer signals
  an error instead of producing NaN. It does not: \<^verbatim>\<open>normalized\<close> has no guard, the
  division is \<open>0 / 0\<close> at every row, and the caller gets a column of NaN.
\<close>

theorem normalized_degenerate_returns_nan:
  "normalized [5, 5] False = [NaN, NaN]"
  by (simp add: normalized_def)

text \<open>
  C7, amended: when the maximum of the column equals its minimum, \<^verbatim>\<open>normalized\<close>
  signals nothing and returns NaN at every row, in both directions.
\<close>

theorem normalized_degenerate_nan:
  assumes "Max (set col) = Min (set col)"
  shows "normalized col invert = replicate (length col) NaN"
proof (rule nth_equalityI)
  show "length (normalized col invert) = length (replicate (length col) NaN)"
    by (simp add: length_normalized)
next
  fix k assume "k < length (normalized col invert)"
  then have k: "k < length col" by (simp add: length_normalized)
  then have "col ! k = Min (set col)"
    using degenerate_all_equal[OF assms] by simp
  with k assms show "normalized col invert ! k = replicate (length col) NaN ! k"
    by (simp add: normalized_def)
qed

theorem normalized_degenerate_nan_witness:
  "Max (set [5, 5 :: rat]) = Min (set [5, 5]) \<and> normalized [5, 5] True = [NaN, NaN]"
  using normalized_degenerate_nan[of "[5, 5]" True] by simp



section \<open>Properties of phase A\<close>

lemma pop_sum_mark: "pop_sum (weight_ge t) (mark_elec sel gdf) = pop_sum (weight_ge t) gdf"
  by (induction gdf) (simp_all add: pop_sum_def mark_elec_def weight_ge_def)

lemma fle_trans_fin: "t \<le> s \<Longrightarrow> fle (Fin s) w \<Longrightarrow> fle (Fin t) w"
  by (cases w) auto

lemma mark_mark:
  "t \<le> s \<Longrightarrow>
   mark_elec (weight_ge t) (mark_elec (weight_ge s) gdf) = mark_elec (weight_ge t) gdf"
  by (induction gdf) (auto simp: mark_elec_def weight_ge_def dest: fle_trans_fin)

text \<open>
  The loop, by the induction rule of the partial function: a run that is not entered
  returns its arguments, and a run that is entered stops at some threshold \<open>t\<close>.
\<close>

lemma loop_result:
  assumes "current_elec_loop target i ep gdf = Some r"
  shows "(target < ep \<longrightarrow> r = (i, gdf)) \<and>
         (ep \<le> target \<longrightarrow> (\<exists>t. stops_at target i gdf r t))"
proof (rule current_elec_loop.raw_induct
    [where P = "\<lambda>target i ep gdf r. (target < ep \<longrightarrow> r = (i, gdf)) \<and>
         (ep \<le> target \<longrightarrow> (\<exists>t. stops_at target i gdf r t))", OF _ assms], goal_cases)
  case (1 loop target i ep gdf r)
  show ?case
  proof (cases "ep \<le> target")
    case False
    with 1(2) show ?thesis by simp
  next
    case True
    let ?ep = "pop_sum (weight_ge i) gdf"
    let ?g = "mark_elec (weight_ge i) gdf"
    from True 1(2) have call: "loop target (i - step_size) ?ep ?g = Some r" by simp
    note IH = 1(1)[OF call]
    have pos: "0 < step_size" by (simp add: step_size_def)
    have "\<exists>t. stops_at target i gdf r t"
    proof (cases "?ep \<le> target")
      case False
      with IH have r: "r = (i - step_size, ?g)" by simp
      from False r have "stops_at target i gdf r i"
        unfolding stops_at_def by simp
      then show ?thesis ..
    next
      case T2: True
      with IH obtain t where "stops_at target (i - step_size) ?g r t" by blast
      then have t: "t \<le> i - step_size"
        "r = (t - step_size, mark_elec (weight_ge t) ?g)"
        "target < pop_sum (weight_ge t) ?g"
        "t < i - step_size \<longrightarrow> pop_sum (weight_ge (t + step_size)) ?g \<le> target"
        unfolding stops_at_def by blast+
      from t(1) pos have ti: "t \<le> i" "t < i" by linarith+
      have "t + step_size = i \<or> t < i - step_size" using t(1) by linarith
      then have prev: "pop_sum (weight_ge (t + step_size)) gdf \<le> target"
      proof
        assume "t + step_size = i" with T2 show ?thesis by simp
      next
        assume "t < i - step_size" with t(4) show ?thesis by (simp add: pop_sum_mark)
      qed
      have r: "r = (t - step_size, mark_elec (weight_ge t) gdf)"
        using t(2) ti(1) by (simp add: mark_mark)
      have gt: "target < pop_sum (weight_ge t) gdf"
        using t(3) by (simp add: pop_sum_mark)
      from ti(1) r gt prev have "stops_at target i gdf r t"
        unfolding stops_at_def by blast
      then show ?thesis ..
    qed
    with True show ?thesis by simp
  qed
qed

lemma pops_normalize_for_electricity:
  "map Calibrated_pop (normalize_for_electricity sp gdf) = map Calibrated_pop gdf"
  by (rule nth_equalityI) (simp_all add: normalize_for_electricity_def Let_def length_normalized)

lemma pop_sum_marked:
  "\<forall>c \<in> set gdf. Current_elec c = 0 \<Longrightarrow>
   marked_pop (mark_elec sel gdf) = pop_sum sel gdf"
  by (induction gdf) (simp_all add: marked_pop_def is_elec_def pop_sum_def mark_elec_def)

lemma pops_reset:
  "map Calibrated_pop (map (\<lambda>c. c\<lparr>Current_elec := 0\<rparr>) gdf) = map Calibrated_pop gdf"
  by (induction gdf) simp_all

lemma current_elec_two_cells:
  "current_elec example_specs two_cells = Some (1 - step_size, two_cells_phase_a)"
  apply (simp add: current_elec_def normalize_for_electricity_def normalized_def
      example_specs_def two_cells_def two_cells_phase_a_def blank_cell_def Let_def)
  apply (subst current_elec_loop.simps)
  apply (simp add: pop_sum_def weight_ge_def mark_elec_def)
  apply (subst current_elec_loop.simps)
  apply (simp add: pop_sum_def weight_ge_def mark_elec_def)
  done




lemma marked_pop_unmarked:
  "\<forall>c \<in> set gdf. Current_elec c = 0 \<Longrightarrow> marked_pop gdf = 0"
  by (induction gdf) (simp_all add: marked_pop_def pop_sum_def is_elec_def)

lemma pops_mark: "map Calibrated_pop (mark_elec sel gdf) = map Calibrated_pop gdf"
  by (induction gdf) (simp_all add: mark_elec_def)

lemma current_elec_marked_above:
  assumes run: "current_elec sp gdf = Some (i', gdf')"
  shows "total_pop gdf' = total_pop gdf \<and> total_pop gdf * Elec_rate sp < marked_pop gdf'"
proof -
  let ?g = "map (\<lambda>c. c\<lparr>Current_elec := 0\<rparr>) (normalize_for_electricity sp gdf)"
  let ?target = "total_pop gdf * Elec_rate sp"
  have tp: "sum_list (map Calibrated_pop ?g) = total_pop gdf"
    unfolding total_pop_def pops_reset pops_normalize_for_electricity ..
  from run have loop: "current_elec_loop ?target 1 0 ?g = Some (i', gdf')"
    unfolding current_elec_def Let_def tp .
  have zero: "\<forall>c \<in> set ?g. Current_elec c = 0" by simp
  show ?thesis
  proof (cases "0 \<le> ?target")
    case False
    with loop_result[OF loop] have "gdf' = ?g" by simp
    with False tp show ?thesis
      by (simp add: marked_pop_unmarked[OF zero] total_pop_def)
  next
    case True
    with loop_result[OF loop] obtain t where "stops_at ?target 1 ?g (i', gdf') t" by blast
    then have t: "gdf' = mark_elec (weight_ge t) ?g" "?target < pop_sum (weight_ge t) ?g"
      unfolding stops_at_def by simp_all
    have "marked_pop gdf' = pop_sum (weight_ge t) ?g"
      unfolding t(1) by (rule pop_sum_marked[OF zero])
    moreover have "total_pop gdf' = total_pop gdf"
      unfolding t(1) using tp by (simp add: total_pop_def pops_mark)
    ultimately show ?thesis using t(2) by simp
  qed
qed

text \<open>
  Termination of phase A: when every weight is at least some \<open>m\<close> and the target is
  below the total population, the loop returns, at the latest when the threshold has
  come down to \<open>m\<close>.
\<close>

lemma pop_sum_all:
  "\<forall>c \<in> set gdf. sel c \<Longrightarrow> pop_sum sel gdf = sum_list (map Calibrated_pop gdf)"
  by (induction gdf) (simp_all add: pop_sum_def)

lemma weights_mark: "map combined_weight (mark_elec sel gdf) = map combined_weight gdf"
  by (induction gdf) (simp_all add: mark_elec_def)

lemma weights_above_mark: "weights_above m (mark_elec sel gdf) = weights_above m gdf"
  by (simp add: weights_above_def weights_mark)

lemma weights_above_ge:
  assumes "weights_above m gdf" "i \<le> m" "c \<in> set gdf"
  shows "weight_ge i c"
proof -
  from assms(1,3) have "fle (Fin m) (combined_weight c)"
    by (auto simp: weights_above_def list_all_iff)
  with assms(2) show ?thesis unfolding weight_ge_def by (rule fle_trans_fin)
qed

lemma current_elec_loop_terminates:
  assumes "weights_above m gdf"
    and "target < sum_list (map Calibrated_pop gdf)"
    and "i \<le> m + of_nat k * step_size"
  shows "\<exists>r. current_elec_loop target i ep gdf = Some r"
  using assms
proof (induction k arbitrary: i ep gdf)
  case 0
  then have all: "\<forall>c \<in> set gdf. weight_ge i c"
    using weights_above_ge[of m gdf i] by simp
  show ?case
  proof (cases "ep \<le> target")
    case False
    then show ?thesis by (subst current_elec_loop.simps) simp
  next
    case True
    from pop_sum_all[OF all] "0.prems"(2) have "\<not> pop_sum (weight_ge i) gdf \<le> target" by simp
    then have "current_elec_loop target (i - step_size) (pop_sum (weight_ge i) gdf)
        (mark_elec (weight_ge i) gdf) = Some (i - step_size, mark_elec (weight_ge i) gdf)"
      by (subst current_elec_loop.simps) simp
    with True show ?thesis by (subst current_elec_loop.simps) simp
  qed
next
  case (Suc k)
  show ?case
  proof (cases "ep \<le> target")
    case False
    then show ?thesis by (subst current_elec_loop.simps) simp
  next
    case True
    let ?g = "mark_elec (weight_ge i) gdf"
    have a: "weights_above m ?g" using Suc.prems(1) by (simp add: weights_above_mark)
    have b: "target < sum_list (map Calibrated_pop ?g)" using Suc.prems(2) by (simp add: pops_mark)
    have c: "i - step_size \<le> m + of_nat k * step_size"
      using Suc.prems(3) by (simp add: algebra_simps)
    from Suc.IH[OF a b c] obtain r where
      "current_elec_loop target (i - step_size) (pop_sum (weight_ge i) gdf) ?g = Some r" by blast
    with True show ?thesis by (subst current_elec_loop.simps) simp
  qed
qed

lemma normalized_fin:
  assumes "Max (set col) \<noteq> Min (set col)" "k < length col"
  shows "\<exists>v. normalized col b ! k = Fin v"
  using assms by (simp add: normalized_def)

lemma weights_above_ex:
  assumes "\<forall>c \<in> set gdf. \<exists>w. combined_weight c = Fin w"
  shows "\<exists>m. weights_above m gdf"
  using assms
proof (induction gdf)
  case Nil
  show ?case by (simp add: weights_above_def)
next
  case (Cons c gdf)
  then obtain m where m: "weights_above m gdf" by auto
  from Cons.prems obtain w where w: "combined_weight c = Fin w" by auto
  have "fle (Fin (min w m)) x" if "fle (Fin m) x" for x
    using that by (rule fle_trans_fin[rotated]) simp
  with m have "weights_above (min w m) gdf"
    by (auto simp: weights_above_def list_all_iff)
  with w have "weights_above (min w m) (c # gdf)"
    by (simp add: weights_above_def)
  then show ?case ..
qed

lemma normalize_for_electricity_fin:
  assumes e: "Max (set (map Elec_dist gdf)) \<noteq> Min (set (map Elec_dist gdf))"
    and n: "Max (set (map Night_lights gdf)) \<noteq> Min (set (map Night_lights gdf))"
    and p: "Max (set (map Calibrated_pop gdf)) \<noteq> Min (set (map Calibrated_pop gdf))"
    and w: "infra_weight sp + Min_Elec_Pop sp + Min_Night_Lights sp \<noteq> 0"
    and c: "c \<in> set (normalize_for_electricity sp gdf)"
  shows "\<exists>w. combined_weight c = Fin w"
proof -
  have len: "length (normalize_for_electricity sp gdf) = length gdf"
    by (simp add: normalize_for_electricity_def Let_def length_normalized)
  from c obtain k where k: "k < length gdf" and ck: "c = normalize_for_electricity sp gdf ! k"
    unfolding in_set_conv_nth len by auto
  from normalized_fin[OF e, of k True] k obtain ve where
    ve: "normalized (map Elec_dist gdf) True ! k = Fin ve" by auto
  from normalized_fin[OF n, of k False] k obtain vn where
    vn: "normalized (map Night_lights gdf) False ! k = Fin vn" by auto
  from normalized_fin[OF p, of k False] k obtain vp where
    vp: "normalized (map Calibrated_pop gdf) False ! k = Fin vp" by auto
  show ?thesis
    unfolding ck using k ve vn vp w
    by (simp add: normalize_for_electricity_def Let_def length_normalized)
qed

text \<open>
  So \<^verbatim>\<open>current_elec\<close> returns on every table of positive total population with a
  target rate below one, provided that none of the three normalised columns is
  constant and the weights do not add up to zero. A constant column gives NaN weights,
  which no threshold reaches.
\<close>

lemma current_elec_terminates:
  assumes e: "Max (set (map Elec_dist gdf)) \<noteq> Min (set (map Elec_dist gdf))"
    and n: "Max (set (map Night_lights gdf)) \<noteq> Min (set (map Night_lights gdf))"
    and p: "Max (set (map Calibrated_pop gdf)) \<noteq> Min (set (map Calibrated_pop gdf))"
    and w: "infra_weight sp + Min_Elec_Pop sp + Min_Night_Lights sp \<noteq> 0"
    and tot: "0 < total_pop gdf" and r1: "Elec_rate sp < 1"
  shows "\<exists>r. current_elec sp gdf = Some r"
proof -
  let ?g = "map (\<lambda>c. c\<lparr>Current_elec := 0\<rparr>) (normalize_for_electricity sp gdf)"
  have tp: "sum_list (map Calibrated_pop ?g) = total_pop gdf"
    unfolding total_pop_def pops_reset pops_normalize_for_electricity ..
  have "\<forall>c \<in> set ?g. \<exists>w. combined_weight c = Fin w"
    using normalize_for_electricity_fin[OF e n p w] by auto
  from weights_above_ex[OF this] obtain m where m: "weights_above m ?g" ..
  have tgt: "total_pop gdf * Elec_rate sp < sum_list (map Calibrated_pop ?g)"
    unfolding tp using tot r1 by simp
  obtain k :: nat where "(1 - m) / step_size \<le> of_nat k"
    using real_arch_simple by blast
  then have k: "1 \<le> m + of_nat k * step_size"
    by (simp add: step_size_def field_simps)
  from current_elec_loop_terminates[OF m tgt k, of 0] show ?thesis
    unfolding current_elec_def Let_def tp .
qed

section \<open>Properties of phase B\<close>

lemma sweep_row:
  fixes c :: cell and factor self_i i :: rat
  defines "c' \<equiv> sweep_cell factor self_i i c"
  shows "Elec_pop_calib c' =
           max 0 (if in_band self_i i c then Elec_pop_calib c - factor else Elec_pop_calib c)"
    and "Current_elec c' = (if Elec_pop_calib c' = 0 then 0 else Current_elec c)"
    and "Calibrated_pop c' = Calibrated_pop c"
    and "combined_weight c' = combined_weight c"
  unfolding c'_def by (simp_all add: sweep_cell_def deactivate_def clamp_zero_def reduce_band_def max_def)

lemma sweep_row_within:
  assumes "0 \<le> factor" "elec_within_pop c"
  shows "elec_within_pop (sweep_cell factor self_i i c)"
  using assms unfolding elec_within_pop_def sweep_row by (simp add: max_def)

lemma table_body:
  "table (final_elec_body factor self_i st) =
     map (sweep_cell factor self_i (thr st)) (table st)"
  by (simp add: final_elec_body_def Let_def)

lemma elec_pop_body:
  "elec_pop (final_elec_body factor self_i st) = elec_sum (table (final_elec_body factor self_i st))"
  by (simp add: final_elec_body_def Let_def)

lemma pass_stable:
  "\<not> target < elec_pop st \<Longrightarrow> (final_elec_pass target factor self_i ^^ n) st = st"
  by (induction n) (simp_all add: final_elec_pass_def)

lemma final_elec_loop_result:
  assumes "final_elec_loop target factor self_i st = Some g"
  shows "\<exists>n. g = table ((final_elec_pass target factor self_i ^^ n) st) \<and>
             \<not> target < elec_pop ((final_elec_pass target factor self_i ^^ n) st)"
proof (rule final_elec_loop.raw_induct
    [where P = "\<lambda>target factor self_i st g.
       \<exists>n. g = table ((final_elec_pass target factor self_i ^^ n) st) \<and>
           \<not> target < elec_pop ((final_elec_pass target factor self_i ^^ n) st)", OF _ assms],
    goal_cases)
  case (1 loop target factor self_i st g)
  show ?case
  proof (cases "target < elec_pop st")
    case False
    with 1(2) have "g = table st" by simp
    with False have "g = table ((final_elec_pass target factor self_i ^^ 0) st) \<and>
        \<not> target < elec_pop ((final_elec_pass target factor self_i ^^ 0) st)" by simp
    then show ?thesis ..
  next
    case True
    with 1(2) have "loop target factor self_i (final_elec_body factor self_i st) = Some g" by simp
    from 1(1)[OF this] obtain n where
      n: "g = table ((final_elec_pass target factor self_i ^^ n) (final_elec_body factor self_i st))"
         "\<not> target < elec_pop ((final_elec_pass target factor self_i ^^ n) (final_elec_body factor self_i st))"
      by blast
    have "final_elec_pass target factor self_i st = final_elec_body factor self_i st"
      using True by (simp add: final_elec_pass_def)
    then have "(final_elec_pass target factor self_i ^^ Suc n) st =
        (final_elec_pass target factor self_i ^^ n) (final_elec_body factor self_i st)"
      by (simp add: funpow_swap1)
    with n have "g = table ((final_elec_pass target factor self_i ^^ Suc n) st) \<and>
        \<not> target < elec_pop ((final_elec_pass target factor self_i ^^ Suc n) st)" by simp
    then show ?thesis ..
  qed
qed

lemma marked_pop_Nil: "marked_pop [] = 0"
  by (simp add: marked_pop_def pop_sum_def)

lemma factor_pos:
  assumes "final_elec_target sp gdf < marked_pop gdf"
  shows "0 < final_elec_factor sp gdf"
proof -
  have "gdf \<noteq> []"
  proof
    assume "gdf = []"
    with assms show False
      by (simp add: marked_pop_Nil final_elec_target_def total_pop_def)
  qed
  then have "0 < (of_nat (length gdf) :: rat)" by simp
  with assms show ?thesis
    by (simp add: final_elec_factor_def Let_def)
qed

lemma init_within:
  assumes "\<forall>c \<in> set gdf. 0 \<le> Calibrated_pop c"
  shows "\<forall>c \<in> set (table (final_elec_init self_i gdf)). elec_within_pop c"
  using assms by (simp add: final_elec_init_def elec_within_pop_def)

lemma after_within:
  assumes "\<forall>c \<in> set gdf. 0 \<le> Calibrated_pop c"
  shows "\<forall>c \<in> set (table (final_elec_after sp self_i gdf n)). elec_within_pop c"
proof (cases "final_elec_target sp gdf < marked_pop gdf")
  case False
  then have "final_elec_after sp self_i gdf n = final_elec_init self_i gdf"
    unfolding final_elec_after_def by (intro pass_stable) (simp add: final_elec_init_def)
  with init_within[OF assms] show ?thesis by simp
next
  case True
  then have f: "0 \<le> final_elec_factor sp gdf" using factor_pos by (simp add: less_imp_le)
  show ?thesis
  proof (induction n)
    case 0
    show ?case using init_within[OF assms] by (simp add: final_elec_after_def)
  next
    case (Suc n)
    let ?st = "final_elec_after sp self_i gdf n"
    have s: "final_elec_after sp self_i gdf (Suc n) =
        final_elec_pass (final_elec_target sp gdf) (final_elec_factor sp gdf) self_i ?st"
      by (simp add: final_elec_after_def)
    show ?case
    proof (cases "final_elec_target sp gdf < elec_pop ?st")
      case False
      with Suc s show ?thesis by (simp add: final_elec_pass_def)
    next
      case True
      with s have "table (final_elec_after sp self_i gdf (Suc n)) =
         map (sweep_cell (final_elec_factor sp gdf) self_i (thr ?st)) (table ?st)"
        by (simp add: final_elec_pass_def table_body)
      with Suc f show ?thesis by (auto intro: sweep_row_within)
    qed
  qed
qed

lemma length_after: "length (table (final_elec_after sp self_i gdf n)) = length gdf"
proof (induction n)
  case 0
  show ?case by (simp add: final_elec_after_def final_elec_init_def)
next
  case (Suc n)
  then show ?case
    by (simp add: final_elec_after_def final_elec_pass_def table_body)
qed

lemma elec_sum_init: "elec_sum (table (final_elec_init self_i gdf)) = marked_pop gdf"
  by (induction gdf)
     (simp_all add: final_elec_init_def elec_sum_def marked_pop_def pop_sum_def is_elec_def)

lemma elec_pop_after:
  "elec_pop (final_elec_after sp self_i gdf n) = elec_sum (table (final_elec_after sp self_i gdf n))"
proof (induction n)
  case 0
  show ?case using elec_sum_init[of self_i gdf]
    by (simp add: final_elec_after_def) (simp add: final_elec_init_def)
next
  case (Suc n)
  then show ?case
    by (simp add: final_elec_after_def final_elec_pass_def elec_pop_body)
qed

lemma elec_sum_zero_unelectrified: "elec_sum (map zero_unelectrified gdf) = elec_sum gdf"
  by (induction gdf) (simp_all add: elec_sum_def zero_unelectrified_def is_elec_def)

lemma final_elec_result:
  assumes "final_elec sp self_i gdf = Some g"
  shows "\<exists>n. g = map zero_unelectrified (table (final_elec_after sp self_i gdf n)) \<and>
             \<not> final_elec_target sp gdf < elec_pop (final_elec_after sp self_i gdf n)"
proof -
  from assms obtain g0 where
    g0: "final_elec_loop (final_elec_target sp gdf) (final_elec_factor sp gdf) self_i
           (final_elec_init self_i gdf) = Some g0"
    and g: "g = map zero_unelectrified g0"
    unfolding final_elec_def by auto
  from final_elec_loop_result[OF g0] g show ?thesis
    unfolding final_elec_after_def by blast
qed

lemma final_elec_below_target:
  assumes "final_elec sp self_i gdf = Some g"
  shows "elec_sum g \<le> final_elec_target sp gdf"
proof -
  from final_elec_result[OF assms] obtain n where
    n: "g = map zero_unelectrified (table (final_elec_after sp self_i gdf n))"
       "\<not> final_elec_target sp gdf < elec_pop (final_elec_after sp self_i gdf n)"
    by blast
  from n(2) have "elec_sum (table (final_elec_after sp self_i gdf n)) \<le> final_elec_target sp gdf"
    by (simp add: elec_pop_after)
  with n(1) show ?thesis by (simp add: elec_sum_zero_unelectrified)
qed

lemma final_elec_specs_cong:
  assumes "Elec_rate sp' = Elec_rate sp"
  shows "final_elec sp' self_i gdf = final_elec sp self_i gdf"
  using assms by (simp add: final_elec_def final_elec_target_def final_elec_factor_def)

lemmas example_defs = example_specs_def two_cells_def two_cells_phase_a_def two_cells_phase_b_def
  blank_cell_def

lemmas phase_b_defs = final_elec_target_def final_elec_factor_def final_elec_init_def
  total_pop_def marked_pop_def pop_sum_def is_elec_def elec_sum_def final_elec_body_def
  sweep_cell_def reduce_band_def clamp_zero_def deactivate_def in_band_def
  zero_unelectrified_def step_size_def

lemma final_elec_two_cells:
  "final_elec example_specs (1 - step_size) two_cells_phase_a = Some two_cells_phase_b"
  unfolding final_elec_def
  apply (simp add: example_defs phase_b_defs Let_def)
  apply (subst final_elec_loop.simps)
  apply (simp add: example_defs phase_b_defs Let_def)
  apply (subst final_elec_loop.simps)
  apply (simp add: example_defs phase_b_defs Let_def)
  apply (subst final_elec_loop.simps)
  apply (simp add: example_defs phase_b_defs Let_def)
  done

lemma after_two_cells_0:
  "final_elec_after example_specs (1 - step_size) two_cells_phase_a 0 =
     \<lparr>thr = 1, elec_pop = 300,
      table = [(two_cells_phase_a ! 0)\<lparr>Elec_pop_calib := 300\<rparr>,
               (two_cells_phase_a ! 1)\<lparr>Elec_pop_calib := 100\<rparr>]\<rparr>"
  by (simp add: final_elec_after_def example_defs phase_b_defs)

lemma after_two_cells_1:
  "final_elec_after example_specs (1 - step_size) two_cells_phase_a 1 =
     \<lparr>thr = 1, elec_pop = 250,
      table = [(two_cells_phase_a ! 0)\<lparr>Elec_pop_calib := 250\<rparr>,
               (two_cells_phase_a ! 1)\<lparr>Elec_pop_calib := 100\<rparr>]\<rparr>"
  by (simp add: final_elec_after_def final_elec_pass_def example_defs phase_b_defs Let_def)

text \<open>
  C3, as stated: the decrement of a step is the current surplus divided by the number
  of currently electrified cells. On the table that phase A left of the two rows, one
  row is electrified and the surplus is 100, so the decrement would be 100; the first
  sweep takes 50 from that row.
\<close>

theorem final_elec_decrement_example:
  "Elec_pop_calib (table (final_elec_after example_specs (1 - step_size) two_cells_phase_a 0) ! 0)
     - Elec_pop_calib (table (final_elec_after example_specs (1 - step_size) two_cells_phase_a 1) ! 0)
     = 50 \<and>
   spec_decrement (final_elec_target example_specs two_cells_phase_a)
     (final_elec_after example_specs (1 - step_size) two_cells_phase_a 0) = 100"
  unfolding after_two_cells_0 after_two_cells_1
  by (simp add: spec_decrement_def example_defs phase_b_defs)

text \<open>
  C3, amended: in every sweep of \<^verbatim>\<open>final_elec\<close> the decrement is the surplus at entry
  (the population of the rows marked by phase A minus the target) divided by the
  number of all rows of the table, the same in every sweep; it is taken from the rows
  whose weight lies in the current band \<open>[self.i, i]\<close>, every value is clamped at
  zero, and a row whose value is zero is deactivated.
\<close>

theorem final_elec_sweep_decrement:
  assumes k: "k < length gdf"
    and guard: "final_elec_target sp gdf < elec_pop (final_elec_after sp self_i gdf n)"
  shows "let st = final_elec_after sp self_i gdf n;
             c = table st ! k;
             c' = table (final_elec_after sp self_i gdf (Suc n)) ! k;
             d = (marked_pop gdf - total_pop gdf * Elec_rate sp) / of_nat (length gdf)
         in Elec_pop_calib c' =
              max 0 (if in_band self_i (thr st) c then Elec_pop_calib c - d else Elec_pop_calib c)
          \<and> Current_elec c' = (if Elec_pop_calib c' = 0 then 0 else Current_elec c)"
proof -
  let ?st = "final_elec_after sp self_i gdf n"
  let ?f = "final_elec_factor sp gdf"
  have f: "?f = (marked_pop gdf - total_pop gdf * Elec_rate sp) / of_nat (length gdf)"
    by (simp add: final_elec_factor_def final_elec_target_def Let_def)
  have "final_elec_after sp self_i gdf (Suc n) = final_elec_body ?f self_i ?st"
    using guard by (simp add: final_elec_after_def final_elec_pass_def)
  then have "table (final_elec_after sp self_i gdf (Suc n)) ! k =
      sweep_cell ?f self_i (thr ?st) (table ?st ! k)"
    using k by (simp add: table_body length_after)
  then show ?thesis
    unfolding Let_def f[symmetric] by (simp only: sweep_row)
qed

theorem final_elec_sweep_decrement_witness:
  "(0 :: nat) < length two_cells_phase_a \<and>
   final_elec_target example_specs two_cells_phase_a
     < elec_pop (final_elec_after example_specs (1 - step_size) two_cells_phase_a 0) \<and>
   Elec_pop_calib (table (final_elec_after example_specs (1 - step_size) two_cells_phase_a 1) ! 0)
     = 250"
proof -
  have h: "(0 :: nat) < length two_cells_phase_a"
    "final_elec_target example_specs two_cells_phase_a
       < elec_pop (final_elec_after example_specs (1 - step_size) two_cells_phase_a 0)"
    unfolding after_two_cells_0 by (simp_all add: example_defs phase_b_defs)
  from final_elec_sweep_decrement[OF h] h show ?thesis
    unfolding after_two_cells_0 after_two_cells_1 by simp
qed

text \<open>
  C10: both phases compare against the total population times the one value
  \<^verbatim>\<open>specs["Elec_rate"]\<close>. Phase A ends with the marked population above that target,
  phase B ends with the electrified population at or below the same target, and
  \<^verbatim>\<open>final_elec\<close> reads nothing else of the configuration: a configuration with the
  same rate gives the same run.
\<close>

theorem phases_share_target:
  assumes a: "current_elec sp gdf = Some (i', gdf')"
    and b: "final_elec sp i' gdf' = Some gdf''"
    and same: "Elec_rate sp' = Elec_rate sp"
  shows "total_pop gdf * Elec_rate sp < marked_pop gdf'
       \<and> elec_sum gdf'' \<le> total_pop gdf * Elec_rate sp
       \<and> final_elec sp' i' gdf' = Some gdf''"
proof -
  from current_elec_marked_above[OF a] have
    tp: "total_pop gdf' = total_pop gdf" and above: "total_pop gdf * Elec_rate sp < marked_pop gdf'"
    by simp_all
  from final_elec_below_target[OF b] tp have "elec_sum gdf'' \<le> total_pop gdf * Elec_rate sp"
    by (simp add: final_elec_target_def)
  moreover have "final_elec sp' i' gdf' = Some gdf''"
    using final_elec_specs_cong[OF same] b by simp
  ultimately show ?thesis using above by simp
qed

theorem phases_share_target_witness:
  "current_elec example_specs two_cells = Some (1 - step_size, two_cells_phase_a) \<and>
   final_elec example_specs (1 - step_size) two_cells_phase_a = Some two_cells_phase_b \<and>
   total_pop two_cells * Elec_rate example_specs < marked_pop two_cells_phase_a \<and>
   elec_sum two_cells_phase_b \<le> total_pop two_cells * Elec_rate example_specs \<and>
   final_elec (example_specs\<lparr>Urban_start := 1\<rparr>) (1 - step_size) two_cells_phase_a
     = Some two_cells_phase_b"
proof -
  have same: "Elec_rate (example_specs\<lparr>Urban_start := 1\<rparr>) = Elec_rate example_specs" by simp
  from phases_share_target[OF current_elec_two_cells final_elec_two_cells same]
    current_elec_two_cells final_elec_two_cells
  show ?thesis by simp
qed

section \<open>Properties of the allocator\<close>





lemmas allocator_defs = maximum_net_benefit_def best_row_def current_elect_def elect_fraction_def
  second_benefit_cols_def grid_row_def other_row_def row_max_def idxmax_def appended_index_def








lemma zero_unelectrified_within:
  "elec_within_pop c \<Longrightarrow> elec_within_pop (zero_unelectrified c)"
  by (auto simp: elec_within_pop_def zero_unelectrified_def)

lemma best_row_within: "elec_within_pop (best_row c) = elec_within_pop c"
  by (simp add: elec_within_pop_def best_row_def)

lemma fraction_bounds:
  assumes "elec_within_pop c" "Elec_pop_calib c < Calibrated_pop c"
  shows "0 \<le> elect_fraction c" "elect_fraction c < 1"
proof -
  from assms have e: "0 \<le> Elec_pop_calib c" and p: "0 < Calibrated_pop c"
    by (simp_all add: elec_within_pop_def)
  show "0 \<le> elect_fraction c" using e p by (simp add: elect_fraction_def)
  show "elect_fraction c < 1" using assms(2) p by (simp add: elect_fraction_def)
qed

lemma grid_row_within:
  assumes "elec_within_pop c" "Elec_pop_calib c < Calibrated_pop c"
  shows "elec_within_pop (grid_row c)"
proof -
  note f = fraction_bounds[OF assms]
  from assms(1) have "0 \<le> Elec_pop_calib c" "Elec_pop_calib c \<le> Calibrated_pop c"
    by (simp_all add: elec_within_pop_def)
  with f(1) show ?thesis
    by (simp add: elec_within_pop_def grid_row_def mult_right_mono)
qed

lemma other_row_within:
  assumes "elec_within_pop c" "Elec_pop_calib c < Calibrated_pop c"
  shows "elec_within_pop (other_row c)"
proof -
  from fraction_bounds(2)[OF assms] have f: "0 \<le> 1 - elect_fraction c" by simp
  from assms(1) have "0 \<le> Elec_pop_calib c" "Elec_pop_calib c \<le> Calibrated_pop c"
    by (simp_all add: elec_within_pop_def)
  with f show ?thesis
    by (simp add: elec_within_pop_def other_row_def mult_right_mono)
qed

lemma maximum_net_benefit_within:
  assumes inv: "\<forall>c \<in> set gdf. elec_within_pop c"
    and run: "maximum_net_benefit gdf = Inr gdf'"
  shows "\<forall>c \<in> set gdf'. elec_within_pop c"
proof -
  let ?g1 = "map best_row gdf"
  let ?dff = "filter current_elect ?g1"
  have g1: "\<forall>c \<in> set ?g1. elec_within_pop c" using inv by (simp add: best_row_within)
  show ?thesis
  proof (cases "?dff = []")
    case True
    with run have "gdf' = ?g1"
      unfolding maximum_net_benefit_def Let_def by (simp split: if_splits)
    with g1 show ?thesis by simp
  next
    case False
    with run have res:
      "gdf' = map (\<lambda>c. if current_elect c then grid_row c else c) ?g1 @ map other_row ?dff"
      unfolding maximum_net_benefit_def Let_def by (simp split: if_splits)
    have a: "elec_within_pop (if current_elect c then grid_row c else c)" if "c \<in> set ?g1" for c
      using that g1 by (auto simp: current_elect_def intro: grid_row_within)
    have b: "elec_within_pop (other_row c)" if "c \<in> set ?dff" for c
    proof -
      from that have "c \<in> set ?g1" "current_elect c" by simp_all
      with g1 show ?thesis by (auto simp: current_elect_def intro: other_row_within)
    qed
    have "set gdf' = (\<lambda>c. if current_elect c then grid_row c else c) ` set ?g1
        \<union> other_row ` set ?dff"
      unfolding res by (simp only: set_append set_map)
    then have mem: "c \<in> (\<lambda>c. if current_elect c then grid_row c else c) ` set ?g1
        \<or> c \<in> other_row ` set ?dff" if "c \<in> set gdf'" for c
      using that by (simp only: Un_iff)
    show ?thesis
    proof
      fix c assume "c \<in> set gdf'"
      from mem[OF this] show "elec_within_pop c"
      proof
        assume "c \<in> (\<lambda>c. if current_elect c then grid_row c else c) ` set ?g1"
        then obtain x where "x \<in> set ?g1" "c = (if current_elect x then grid_row x else x)"
          by (rule imageE)
        with a[of x] show ?thesis by (simp only:)
      next
        assume "c \<in> other_row ` set ?dff"
        then obtain x where "x \<in> set ?dff" "c = other_row x" by (rule imageE)
        with b[of x] show ?thesis by (simp only:)
      qed
    qed
  qed
qed

lemma maximum_net_benefit_two_cells:
  "maximum_net_benefit two_cells_phase_b = Inr two_cells_allocated"
  by (simp add: allocator_defs example_defs two_cells_allocated_def Let_def)

text \<open>
  C4: on a table whose calibrated populations are not negative, every row satisfies
  \<open>0 \<le> Elec_pop_calib \<le> Calibrated_pop\<close> after every pass of the loop of
  \<^verbatim>\<open>final_elec\<close> and in the table that \<^verbatim>\<open>final_elec\<close> returns, and
  \<^verbatim>\<open>maximum_net_benefit\<close> keeps the invariant: its rows, the scaled and the appended
  ones, satisfy it when the rows it was given do.
\<close>

theorem elec_within_pop_invariant:
  assumes pops: "\<forall>c \<in> set gdf. 0 \<le> Calibrated_pop c"
  shows "(\<forall>c \<in> set (table (final_elec_after sp self_i gdf n)). elec_within_pop c)
       \<and> (final_elec sp self_i gdf = Some g \<longrightarrow> (\<forall>c \<in> set g. elec_within_pop c))
       \<and> ((\<forall>c \<in> set g. elec_within_pop c) \<and> maximum_net_benefit g = Inr g'
             \<longrightarrow> (\<forall>c \<in> set g'. elec_within_pop c))"
proof (intro conjI impI)
  show "\<forall>c \<in> set (table (final_elec_after sp self_i gdf n)). elec_within_pop c"
    by (rule after_within[OF pops])
next
  assume "final_elec sp self_i gdf = Some g"
  from final_elec_result[OF this] obtain m where
    "g = map zero_unelectrified (table (final_elec_after sp self_i gdf m))" by blast
  with after_within[OF pops, of sp self_i m] show "\<forall>c \<in> set g. elec_within_pop c"
    by (auto intro: zero_unelectrified_within)
next
  assume "(\<forall>c \<in> set g. elec_within_pop c) \<and> maximum_net_benefit g = Inr g'"
  then show "\<forall>c \<in> set g'. elec_within_pop c"
    using maximum_net_benefit_within by blast
qed

theorem elec_within_pop_invariant_witness:
  "list_all (\<lambda>c. 0 \<le> Calibrated_pop c) two_cells_phase_a \<and>
   final_elec example_specs (1 - step_size) two_cells_phase_a = Some two_cells_phase_b \<and>
   maximum_net_benefit two_cells_phase_b = Inr two_cells_allocated \<and>
   list_all elec_within_pop
     (table (final_elec_after example_specs (1 - step_size) two_cells_phase_a 1)) \<and>
   list_all elec_within_pop two_cells_phase_b \<and>
   list_all elec_within_pop two_cells_allocated"
proof -
  have pops: "\<forall>c \<in> set two_cells_phase_a. 0 \<le> Calibrated_pop c"
    by (simp add: example_defs)
  from elec_within_pop_invariant[OF pops, of example_specs "1 - step_size" 1
      two_cells_phase_b two_cells_allocated]
    pops final_elec_two_cells maximum_net_benefit_two_cells
  show ?thesis unfolding list_all_iff by simp
qed

section \<open>Properties of the urban classifier\<close>

lemma body_i: "urban_i (calibrate_urban_body cs pt uc st) = urban_i st + 1"
  by (simp add: calibrate_urban_body_def Let_def)

lemma body_empty:
  assumes "urban_gdf st = []" "pt \<noteq> 0"
  shows "urban_gdf (calibrate_urban_body cs pt uc st) = []"
    and "urban_modelled (calibrate_urban_body cs pt uc st) = Fin 0"
  using assms by (simp_all add: calibrate_urban_body_def Let_def)

lemma loop_cap:
  "urban_i (calibrate_urban_loop cs pt uc st) \<le> max (urban_i st + 1) 501"
proof (induction cs pt uc st rule: calibrate_urban_loop.induct)
  case (1 cs pt uc st)
  let ?b = "calibrate_urban_body cs pt uc st"
  show ?case
  proof (cases "far_from (urban_modelled st) uc")
    case False
    then show ?thesis by (subst calibrate_urban_loop.simps) simp
  next
    case far: True
    show ?thesis
    proof (cases "500 < urban_i ?b")
      case True
      with far have "calibrate_urban_loop cs pt uc st = ?b"
        by (subst calibrate_urban_loop.simps) simp
      then show ?thesis by (simp add: body_i)
    next
      case False
      with far have eq: "calibrate_urban_loop cs pt uc st = calibrate_urban_loop cs pt uc ?b"
        by (subst calibrate_urban_loop.simps) simp
      from "1.IH"[OF far False] False show ?thesis
        unfolding eq by (simp add: body_i)
    qed
  qed
qed

lemma loop_empty_runs_out:
  assumes "urban_gdf st = []" "pt \<noteq> 0" "far_from (Fin 0) uc"
    "far_from (urban_modelled st) uc" "urban_i st \<le> 500"
  shows "urban_i (calibrate_urban_loop cs pt uc st) = 501"
  using assms
proof (induction cs pt uc st rule: calibrate_urban_loop.induct)
  case (1 cs pt uc st)
  let ?b = "calibrate_urban_body cs pt uc st"
  note be = body_empty[OF "1.prems"(1,2), of cs uc]
  show ?case
  proof (cases "500 < urban_i ?b")
    case True
    with "1.prems"(4) have "calibrate_urban_loop cs pt uc st = ?b"
      by (subst calibrate_urban_loop.simps) simp
    moreover from True "1.prems"(5) have "urban_i ?b = 501" by (simp add: body_i)
    ultimately show ?thesis by simp
  next
    case False
    with "1.prems"(4) have eq: "calibrate_urban_loop cs pt uc st = calibrate_urban_loop cs pt uc ?b"
      by (subst calibrate_urban_loop.simps) simp
    have "far_from (urban_modelled ?b) uc" using be(2) "1.prems"(3) by simp
    moreover have "urban_i ?b \<le> 500" using False by simp
    ultimately show ?thesis
      unfolding eq using "1.IH"[OF "1.prems"(4) False be(1) "1.prems"(2,3)] by simp
  qed
qed

text \<open>
  C9: the search ends, and it ends within 0.01 of the target or after at most 500
  iterations. The loop does end, being a total function of its arguments, and the
  factor is multiplied by 1.1 or 0.9 as stated; but the counter is tested with
  \<^verbatim>\<open>i > 500\<close> after it is incremented, so the body runs a 501st time. On the empty
  table, whose urban share is never near one half, the run takes 501 iterations.
\<close>

theorem calibrate_urban_manual_501:
  "urban_i (calibrate_urban_manual example_specs 1000 []) = 501"
  unfolding calibrate_urban_manual_def
  by (rule loop_empty_runs_out) (simp_all add: example_specs_def)

text \<open>
  What does hold of the end of the search: a run that starts with a counter of at
  most 500 ends within 0.01 of the target or with a counter of 501, and every
  iteration multiplies the factor by 1.1 when the modelled share is above the target
  and by 0.9 otherwise.
\<close>

lemma loop_stops:
  assumes "urban_i st \<le> 500"
  shows "\<not> far_from (urban_modelled (calibrate_urban_loop cs pt uc st)) uc
       \<or> urban_i (calibrate_urban_loop cs pt uc st) = 501"
  using assms
proof (induction cs pt uc st rule: calibrate_urban_loop.induct)
  case (1 cs pt uc st)
  let ?b = "calibrate_urban_body cs pt uc st"
  show ?case
  proof (cases "far_from (urban_modelled st) uc")
    case False
    then show ?thesis by (subst (1 2) calibrate_urban_loop.simps) simp
  next
    case far: True
    show ?thesis
    proof (cases "500 < urban_i ?b")
      case True
      with far have "calibrate_urban_loop cs pt uc st = ?b"
        by (subst calibrate_urban_loop.simps) simp
      moreover from True "1.prems" have "urban_i ?b = 501" by (simp add: body_i)
      ultimately show ?thesis by simp
    next
      case False
      with far have eq: "calibrate_urban_loop cs pt uc st = calibrate_urban_loop cs pt uc ?b"
        by (subst calibrate_urban_loop.simps) simp
      from False have "urban_i ?b \<le> 500" by simp
      from "1.IH"[OF far False this] show ?thesis unfolding eq .
    qed
  qed
qed

lemma body_factor:
  "urban_factor (calibrate_urban_body cs pt uc st) =
     (if flt (Fin uc) (urban_modelled (calibrate_urban_body cs pt uc st))
      then urban_factor st * (11 / 10) else urban_factor st * (9 / 10))"
  by (simp add: calibrate_urban_body_def Let_def)

lemma calibrate_urban_manual_city:
  "calibrate_urban_manual city_specs 1000 [city_cell] =
     \<lparr>urban_modelled = Fin 1, urban_factor = 9 / 10, urban_i = 1,
      urban_gdf = [city_cell\<lparr>IsUrban := 2\<rparr>]\<rparr>"
  unfolding calibrate_urban_manual_def
  apply (subst calibrate_urban_loop.simps)
  apply (simp add: calibrate_urban_body_def classify_def density_def city_specs_def
      city_cell_def example_specs_def blank_cell_def Let_def)
  apply (subst calibrate_urban_loop.simps)
  apply simp
  done

text \<open>
  C6: after the urban classification, \<^verbatim>\<open>Households\<close> is the population divided by
  \<^verbatim>\<open>Urban_HHsize\<close> for an urban cell. \<^verbatim>\<open>calibrate_urban_manual\<close> gives the classes 0, 1
  and 2, and \<^verbatim>\<open>number_of_households\<close> takes \<^verbatim>\<open>Urban_HHsize\<close> above 20 only: the cell
  of 60000 people is classified urban (2) and gets 60000 / 5 = 12000 households, by
  the rural size, where the urban size gives 60000 / 4 = 15000.
\<close>

theorem urban_cell_gets_rural_household_size:
  "IsUrban (urban_gdf (calibrate_urban_manual city_specs 1000 [city_cell]) ! 0) = 2 \<and>
   Households (number_of_households city_specs
      (urban_gdf (calibrate_urban_manual city_specs 1000 [city_cell])) ! 0)
     = fdiv (Fin (Calibrated_pop city_cell)) (Rural_HHsize city_specs) \<and>
   fdiv (Fin (Calibrated_pop city_cell)) (Rural_HHsize city_specs) = Fin 12000 \<and>
   fdiv (Fin (Calibrated_pop city_cell)) (Urban_HHsize city_specs) = Fin 15000"
  unfolding calibrate_urban_manual_city
  by (simp add: number_of_households_def city_specs_def city_cell_def example_specs_def
      blank_cell_def)

text \<open>
  The same on every table: the classes of the classifier are below 20, so every row
  gets the rural household size.
\<close>

lemma classify_classes: "IsUrban (classify cs f c) \<in> {0, 1, 2}"
  by (simp add: classify_def Let_def)

lemma households_of_classified:
  "number_of_households sp (map (classify cs f) gdf) =
     map (\<lambda>c. (classify cs f c)\<lparr>Households := fdiv (Fin (Calibrated_pop c)) (Rural_HHsize sp)\<rparr>) gdf"
  by (induction gdf) (simp_all add: number_of_households_def classify_def Let_def)

end
